theory Spec2Isabelle
  imports Complex_Main
begin

section \<open>Python values and the external collaborators\<close>

text \<open>
  The layers of \<^verbatim>\<open>movis/layer/media.py\<close> are embedded as state-passing functions.
  A method returns its result together with the updated object; a raised exception is
  the left injection of a sum. The image layers only compare their times and
  durations, and a comparison of finite floats is exact: there a Python \<^verbatim>\<open>float\<close>
  is modelled by the real number it denotes (NaN and the infinities are outside that
  part of the model). The video layer computes with floats; its floats are modelled with
  their rounding, the infinities and NaN.
\<close>

type_synonym path = string

datatype error =
    AssertionError
  | ValueError
  | IndexError
  | TypeError
  | FileNotFoundError
  | UnidentifiedImageError
  | OverflowError

subsection \<open>numpy arrays\<close>

text \<open>
  An \<^verbatim>\<open>ndarray\<close> is its shape, its dtype and its elements in row-major order (what
  \<^verbatim>\<open>ndarray.flat\<close> iterates over). Elements are kept as integers; every array
  the layers build themselves has dtype \<^verbatim>\<open>uint8\<close>.
\<close>

datatype dtype = UInt8 | UInt16 | Float32 | Float64

record ndarray =
  shape :: "nat list"
  dtype :: dtype
  flat :: "int list"

definition ndim :: "ndarray \<Rightarrow> nat" where
  "ndim a = length (shape a)"

text \<open>\<^verbatim>\<open>a[y, x]\<close> of a rank-2 array and \<^verbatim>\<open>a[y, x, c]\<close> of a rank-3 array.\<close>

definition item2 :: "ndarray \<Rightarrow> nat \<Rightarrow> nat \<Rightarrow> int" where
  "item2 a y x = flat a ! (y * (shape a ! 1) + x)"

definition item3 :: "ndarray \<Rightarrow> nat \<Rightarrow> nat \<Rightarrow> nat \<Rightarrow> int" where
  "item3 a y x c = flat a ! ((y * (shape a ! 1) + x) * (shape a ! 2) + c)"

text \<open>Cutting a row-major element list into the vectors along the last axis.\<close>

function chunks :: "nat \<Rightarrow> 'a list \<Rightarrow> 'a list list" where
  "chunks n xs = (if n = 0 \<or> xs = [] then [] else take n xs # chunks n (drop n xs))"
  by pat_completeness auto
termination
  by (relation "measure (\<lambda>(n, xs). length xs)") auto

declare chunks.simps [simp del]

text \<open>\<^verbatim>\<open>np.expand_dims(a, axis=-1)\<close>\<close>

definition expand_dims_last :: "ndarray \<Rightarrow> ndarray" where
  "expand_dims_last a = a\<lparr>shape := shape a @ [1]\<rparr>"

text \<open>\<^verbatim>\<open>np.repeat(a, n, axis=-1)\<close>: every element is repeated \<open>n\<close> times in place.\<close>

definition repeat_last :: "ndarray \<Rightarrow> nat \<Rightarrow> ndarray" where
  "repeat_last a n =
     a\<lparr>shape := butlast (shape a) @ [last (shape a) * n],
       flat := concat (map (replicate n) (flat a))\<rparr>"

text \<open>\<^verbatim>\<open>np.full_like(a, v, dtype=dt)\<close>: a new array of the shape of \<open>a\<close>.\<close>

definition full_like :: "ndarray \<Rightarrow> int \<Rightarrow> dtype \<Rightarrow> ndarray" where
  "full_like a v dt =
     \<lparr>shape = shape a, dtype = dt, flat = replicate (prod_list (shape a)) v\<rparr>"

text \<open>
  \<^verbatim>\<open>np.concatenate([a, b], axis=-1)\<close> for two arrays of one dtype that agree on every
  axis but the last (the only use the source makes of it).
\<close>

definition concatenate_last :: "ndarray \<Rightarrow> ndarray \<Rightarrow> ndarray" where
  "concatenate_last a b =
     \<lparr>shape = butlast (shape a) @ [last (shape a) + last (shape b)],
      dtype = dtype a,
      flat = concat (map2 (@) (chunks (last (shape a)) (flat a))
                              (chunks (last (shape b)) (flat b)))\<rparr>"

subsection \<open>PIL images and the file system\<close>

text \<open>
  A PIL image is its mode, its size \<open>(width, height)\<close> and its band values, pixel by
  pixel in row-major order. Only the 8-bit modes \<^verbatim>\<open>L\<close>, \<^verbatim>\<open>RGB\<close> and \<^verbatim>\<open>RGBA\<close> are
  modelled.
\<close>

datatype pil_mode = ModeL | ModeRGB | ModeRGBA

record pil_image =
  im_mode :: pil_mode
  im_size :: "nat \<times> nat"
  im_bands :: "int list"

text \<open>\<^verbatim>\<open>im.convert("RGBA")\<close>: gray is replicated, the alpha channel added is opaque.\<close>

definition convert_RGBA :: "pil_image \<Rightarrow> pil_image" where
  "convert_RGBA im =
     im\<lparr>im_mode := ModeRGBA,
        im_bands :=
          (case im_mode im of
             ModeL \<Rightarrow> concat (map (\<lambda>v. [v, v, v, 255]) (im_bands im))
           | ModeRGB \<Rightarrow> concat (map (\<lambda>p. p @ [255]) (chunks 3 (im_bands im)))
           | ModeRGBA \<Rightarrow> im_bands im)\<rparr>"

text \<open>\<^verbatim>\<open>np.asarray(im)\<close>\<close>

definition asarray :: "pil_image \<Rightarrow> ndarray" where
  "asarray im =
     \<lparr>shape =
        (case im_mode im of
           ModeL \<Rightarrow> [snd (im_size im), fst (im_size im)]
         | ModeRGB \<Rightarrow> [snd (im_size im), fst (im_size im), 3]
         | ModeRGBA \<Rightarrow> [snd (im_size im), fst (im_size im), 4]),
      dtype = UInt8,
      flat = im_bands im\<rparr>"

text \<open>\<^verbatim>\<open>PILImage.fromarray(a)\<close>, for the array layouts of the three modes.\<close>

definition fromarray :: "ndarray \<Rightarrow> error + pil_image" where
  "fromarray a =
     (if dtype a \<noteq> UInt8 then Inl TypeError
      else if ndim a = 2 then
        Inr \<lparr>im_mode = ModeL, im_size = (shape a ! 1, shape a ! 0), im_bands = flat a\<rparr>
      else if ndim a = 3 \<and> shape a ! 2 = 3 then
        Inr \<lparr>im_mode = ModeRGB, im_size = (shape a ! 1, shape a ! 0), im_bands = flat a\<rparr>
      else if ndim a = 3 \<and> shape a ! 2 = 4 then
        Inr \<lparr>im_mode = ModeRGBA, im_size = (shape a ! 1, shape a ! 0), im_bands = flat a\<rparr>
      else Inl TypeError)"

text \<open>
  The file system at the moment of a call: a path names an image file, some other file
  or directory, or nothing. It is an argument of every call that may touch it, so that
  it can differ from one call to the next.
\<close>

datatype fs_entry = ImageFile pil_image | NotAnImage

type_synonym filesystem = "path \<Rightarrow> fs_entry option"

text \<open>\<^verbatim>\<open>Path(p).exists()\<close>\<close>

definition exists :: "filesystem \<Rightarrow> path \<Rightarrow> bool" where
  "exists fs p = (fs p \<noteq> None)"

text \<open>\<^verbatim>\<open>PILImage.open(p)\<close>\<close>

definition PIL_open :: "filesystem \<Rightarrow> path \<Rightarrow> error + pil_image" where
  "PIL_open fs p =
     (case fs p of
        None \<Rightarrow> Inl FileNotFoundError
      | Some NotAnImage \<Rightarrow> Inl UnidentifiedImageError
      | Some (ImageFile im) \<Rightarrow> Inr im)"

text \<open>What a layer can be constructed from: the branches of the \<^verbatim>\<open>isinstance\<close> chain.\<close>

datatype img_input =
    PathInput path
  | PILInput pil_image
  | ArrayInput ndarray
  | OtherInput

section \<open>The still image layer: class Image\<close>

record image_layer =
  image :: "ndarray option"
  img_file :: "path option"
  image_duration :: real

text \<open>\<^verbatim>\<open>Image.__init__(img_file, duration)\<close>\<close>

definition Image_init :: "filesystem \<Rightarrow> img_input \<Rightarrow> real \<Rightarrow> error + image_layer" where
  "Image_init fs inp d =
     (case inp of
        PathInput p \<Rightarrow>
          if exists fs p
          then Inr \<lparr>image = None, img_file = Some p, image_duration = d\<rparr>
          else Inl AssertionError
      | PILInput im \<Rightarrow>
          Inr \<lparr>image = Some (asarray (convert_RGBA im)), img_file = None, image_duration = d\<rparr>
      | ArrayInput a \<Rightarrow>
          if ndim a = 2 then
            (if dtype a = UInt8 then
               (let img = expand_dims_last a;
                    img = concatenate_last (repeat_last img 3) (full_like img 255 UInt8)
                in Inr \<lparr>image = Some img, img_file = None, image_duration = d\<rparr>)
             else Inl AssertionError)
          else if ndim a = 3 then
            (if shape a ! 2 = 4
             then Inr \<lparr>image = Some a, img_file = None, image_duration = d\<rparr>
             else Inl AssertionError)
          else Inl ValueError
      | OtherInput \<Rightarrow> Inl ValueError)"

text \<open>
  Every method returns its result, the layer after the call, and the paths it handed to
  \<^verbatim>\<open>PILImage.open\<close> during the call (the decode operations), in order.
\<close>

text \<open>\<^verbatim>\<open>Image.get_key(time)\<close>\<close>

definition Image_get_key :: "image_layer \<Rightarrow> real \<Rightarrow> bool \<times> image_layer \<times> path list" where
  "Image_get_key l t = (0 \<le> t \<and> t < image_duration l, l, [])"

text \<open>\<^verbatim>\<open>Image._read_image()\<close>\<close>

definition Image_read_image ::
  "filesystem \<Rightarrow> image_layer \<Rightarrow> (error + ndarray) \<times> image_layer \<times> path list" where
  "Image_read_image fs l =
     (case image l of
        Some b \<Rightarrow> (Inr b, l, [])
      | None \<Rightarrow>
          (case img_file l of
             None \<Rightarrow> (Inl AssertionError, l, [])
           | Some p \<Rightarrow>
               (case PIL_open fs p of
                  Inl e \<Rightarrow> (Inl e, l, [p])
                | Inr im \<Rightarrow>
                    (let b = asarray (convert_RGBA im)
                     in (Inr b, l\<lparr>image := Some b\<rparr>, [p])))))"

text \<open>\<^verbatim>\<open>Image.__call__(time)\<close>\<close>

definition Image_call ::
  "filesystem \<Rightarrow> image_layer \<Rightarrow> real \<Rightarrow> (error + ndarray) \<times> image_layer \<times> path list" where
  "Image_call fs l t = Image_read_image fs l"

text \<open>The property \<^verbatim>\<open>Image.size\<close>: \<open>(width, height)\<close> from the first two axes.\<close>

definition Image_size ::
  "filesystem \<Rightarrow> image_layer \<Rightarrow> (error + nat \<times> nat) \<times> image_layer \<times> path list" where
  "Image_size fs l =
     (case Image_read_image fs l of
        (Inl e, l', opened) \<Rightarrow> (Inl e, l', opened)
      | (Inr b, l', opened) \<Rightarrow>
          (if length (take 2 (shape b)) < 2 then (Inl IndexError, l', opened)
           else (Inr (take 2 (shape b) ! 1, take 2 (shape b) ! 0), l', opened)))"

text \<open>A call of the compositor on a still image layer, and a sequence of such calls.\<close>

datatype image_call = ImGetKey real | ImEvaluate real | ImSize

definition Image_step ::
  "filesystem \<Rightarrow> image_layer \<Rightarrow> image_call \<Rightarrow> image_layer \<times> path list" where
  "Image_step fs l c =
     (case c of
        ImGetKey t \<Rightarrow> snd (Image_get_key l t)
      | ImEvaluate t \<Rightarrow> snd (Image_call fs l t)
      | ImSize \<Rightarrow> snd (Image_size fs l))"

fun Image_run :: "image_layer \<Rightarrow> (filesystem \<times> image_call) list \<Rightarrow> image_layer \<times> path list" where
  "Image_run l [] = (l, [])"
| "Image_run l ((fs, c) # cs) =
     (case Image_step fs l c of
        (l', opened) \<Rightarrow>
          (case Image_run l' cs of (l'', opened') \<Rightarrow> (l'', opened @ opened')))"

section \<open>The image sequence layer: class ImageSequence\<close>

record image_sequence =
  start_times :: "real list"
  end_times :: "real list"
  img_files :: "img_input list"
  images :: "ndarray option list"

text \<open>
  Modelled from the spec: \<^verbatim>\<open>TimelineMixin\<close> (\<^verbatim>\<open>movis/layer/mixin.py\<close>), the base class
  of \<^verbatim>\<open>ImageSequence\<close>, is not among the sources. Its constructor keeps the start and
  end times; \<^verbatim>\<open>get_state(time)\<close> is the interval lookup of the spec, a pure function:
  the index of the interval \<open>[start, end)\<close> that contains the time, the first one in
  construction order, or \<open>-1\<close> when there is none.
\<close>

fun lookup_interval :: "real list \<Rightarrow> real list \<Rightarrow> real \<Rightarrow> int \<Rightarrow> int" where
  "lookup_interval (s # ss) (e # es) t i =
     (if s \<le> t \<and> t < e then i else lookup_interval ss es t (i + 1))"
| "lookup_interval _ _ t i = - 1"

definition get_state :: "image_sequence \<Rightarrow> real \<Rightarrow> int" where
  "get_state s t = lookup_interval (start_times s) (end_times s) t 0"

text \<open>
  The loop of \<^verbatim>\<open>ImageSequence.__init__\<close> over \<^verbatim>\<open>enumerate(img_files)\<close>: a path is
  checked for existence, a PIL image is converted, an array is stored as it is.
\<close>

fun init_images ::
  "filesystem \<Rightarrow> img_input list \<Rightarrow> nat \<Rightarrow> ndarray option list \<Rightarrow> error + ndarray option list" where
  "init_images fs [] i imgs = Inr imgs"
| "init_images fs (f # rest) i imgs =
     (case f of
        PathInput p \<Rightarrow>
          if exists fs p then init_images fs rest (Suc i) imgs else Inl AssertionError
      | PILInput im \<Rightarrow>
          init_images fs rest (Suc i) (imgs[i := Some (asarray (convert_RGBA im))])
      | ArrayInput a \<Rightarrow> init_images fs rest (Suc i) (imgs[i := Some a])
      | OtherInput \<Rightarrow> Inl ValueError)"

text \<open>\<^verbatim>\<open>ImageSequence.__init__(start_times, end_times, img_files)\<close>\<close>

definition ImageSequence_init ::
  "filesystem \<Rightarrow> real list \<Rightarrow> real list \<Rightarrow> img_input list \<Rightarrow> error + image_sequence" where
  "ImageSequence_init fs sts ets files =
     (case init_images fs files 0 (replicate (length files) None) of
        Inl e \<Rightarrow> Inl e
      | Inr imgs \<Rightarrow>
          Inr \<lparr>start_times = sts, end_times = ets, img_files = files, images = imgs\<rparr>)"

text \<open>
  The methods return their result, the layer after the call, and the indices whose file
  they handed to \<^verbatim>\<open>PILImage.open\<close> during the call (the decode operations), in order.
\<close>

text \<open>\<^verbatim>\<open>ImageSequence.get_key(time)\<close>\<close>

definition ImageSequence_get_key ::
  "image_sequence \<Rightarrow> real \<Rightarrow> int \<times> image_sequence \<times> nat list" where
  "ImageSequence_get_key s t =
     (let idx = get_state s t
      in if idx < 0 then (- 1, s, []) else (idx, s, []))"

text \<open>
  \<^verbatim>\<open>ImageSequence.__call__(time)\<close>. An index past the end of a list raises
  \<^verbatim>\<open>IndexError\<close>; the result \<open>None\<close> is Python's \<^verbatim>\<open>None\<close>, no buffer.
\<close>

definition ImageSequence_call ::
  "filesystem \<Rightarrow> image_sequence \<Rightarrow> real \<Rightarrow>
     (error + ndarray option) \<times> image_sequence \<times> nat list" where
  "ImageSequence_call fs s t =
     (let idx = get_state s t
      in if idx < 0 then (Inr None, s, [])
         else if length (images s) \<le> nat idx then (Inl IndexError, s, [])
         else
           (case images s ! nat idx of
              Some b \<Rightarrow> (Inr (Some b), s, [])
            | None \<Rightarrow>
                if length (img_files s) \<le> nat idx then (Inl IndexError, s, [])
                else
                  (case img_files s ! nat idx of
                     PathInput p \<Rightarrow>
                       (case PIL_open fs p of
                          Inl e \<Rightarrow> (Inl e, s, [nat idx])
                        | Inr im \<Rightarrow>
                            (let img = asarray (convert_RGBA im);
                                 s' = s\<lparr>images := (images s)[nat idx := Some img]\<rparr>
                             in (Inr (images s' ! nat idx), s', [nat idx])))
                   | _ \<Rightarrow> (Inl AssertionError, s, []))))"

text \<open>A call of the compositor on a sequence layer, and a sequence of such calls.\<close>

datatype call = GetKey real | Evaluate real



subsection \<open>What a sequence of calls evaluates\<close>





section \<open>The video layer: class Video\<close>

text \<open>
  The decoder handle of \<^verbatim>\<open>imageio\<close>: what it answers for a frame index (a frame or
  the decoder's error) and the index of its last request, which every
  \<^verbatim>\<open>get_data\<close> overwrites.
\<close>

record imageio_reader =
  rd_frames :: "int \<Rightarrow> error + ndarray"
  rd_last_index :: "int option"

definition get_data :: "imageio_reader \<Rightarrow> int \<Rightarrow> (error + ndarray) \<times> imageio_reader" where
  "get_data r i = (rd_frames r i, r\<lparr>rd_last_index := Some i\<rparr>)"

subsection \<open>Python floats\<close>

text \<open>
  The video layer multiplies floats and converts the product to an integer, so there a
  Python \<^verbatim>\<open>float\<close> is modelled as what it is: an IEEE 754 binary64 value, finite,
  infinite or NaN. A finite float is the real number it denotes (the sign of a zero is
  dropped: no operation below tells \<^verbatim>\<open>-0.0\<close> from \<^verbatim>\<open>0.0\<close>). Every double is a value of
  this type; the operations are defined on all of it.
\<close>

datatype pyfloat = Finite real | PosInf | NegInf | NaN

text \<open>\<^verbatim>\<open>x < y\<close>: exact on finite floats, false whenever an operand is NaN.\<close>

fun float_less :: "pyfloat \<Rightarrow> pyfloat \<Rightarrow> bool" where
  "float_less NaN y = False"
| "float_less x NaN = False"
| "float_less (Finite a) (Finite b) = (a < b)"
| "float_less NegInf y = (y \<noteq> NegInf)"
| "float_less x PosInf = (x \<noteq> PosInf)"
| "float_less x y = False"

text \<open>The power \<open>2\<^sup>e\<close> of an integer exponent.\<close>

definition pow2 :: "int \<Rightarrow> real" where
  "pow2 e = (if 0 \<le> e then 2 ^ nat e else 1 / 2 ^ nat (- e))"

text \<open>Rounding to the nearest integer, a tie to the even one.\<close>

definition round_half_even :: "real \<Rightarrow> int" where
  "round_half_even q =
     (let n = \<lfloor>q\<rfloor>; r = q - of_int n
      in if r < 1 / 2 then n else if 1 / 2 < r then n + 1 else if even n then n else n + 1)"

text \<open>
  The exponent of the unit in the last place of the doubles around \<open>x \<noteq> 0\<close>: 53
  significant bits, and never below the exponent \<open>-1074\<close> of the subnormal doubles.
\<close>

definition ulp_exponent :: "real \<Rightarrow> int" where
  "ulp_exponent x = max (\<lfloor>log 2 \<bar>x\<bar>\<rfloor> - 52) (- 1074)"

text \<open>The multiple of that unit nearest to \<open>x\<close>, a tie to the even multiple.\<close>

definition round_to_ulp :: "real \<Rightarrow> real" where
  "round_to_ulp x =
     (if x = 0 then 0
      else of_int (round_half_even (x / pow2 (ulp_exponent x))) * pow2 (ulp_exponent x))"

text \<open>
  The double a real result is rounded to (round to nearest, ties to even): an infinity
  when the rounded value is out of the range of the finite doubles.
\<close>

definition round_double :: "real \<Rightarrow> pyfloat" where
  "round_double x =
     (let y = round_to_ulp x
      in if 2 ^ 1024 \<le> y then PosInf else if y \<le> - (2 ^ 1024) then NegInf else Finite y)"

fun float_sign :: "pyfloat \<Rightarrow> int" where
  "float_sign (Finite a) = (if a = 0 then 0 else if 0 < a then 1 else - 1)"
| "float_sign PosInf = 1"
| "float_sign NegInf = - 1"
| "float_sign NaN = 0"

text \<open>
  \<^verbatim>\<open>x * y\<close>: the exact product of two finite floats, rounded; NaN from a NaN operand
  and from zero times an infinity; otherwise the infinity of the product's sign.
\<close>

fun fmul :: "pyfloat \<Rightarrow> pyfloat \<Rightarrow> pyfloat" where
  "fmul NaN y = NaN"
| "fmul x NaN = NaN"
| "fmul (Finite a) (Finite b) = round_double (a * b)"
| "fmul x y =
     (if float_sign x * float_sign y = 0 then NaN
      else if 0 < float_sign x * float_sign y then PosInf else NegInf)"

text \<open>
  Python's \<^verbatim>\<open>int(x)\<close> of a float: the fractional part is dropped, towards zero;
  \<^verbatim>\<open>OverflowError\<close> on an infinity and \<^verbatim>\<open>ValueError\<close> on NaN.
\<close>

fun int_of_float :: "pyfloat \<Rightarrow> error + int" where
  "int_of_float (Finite x) = Inr (if 0 \<le> x then \<lfloor>x\<rfloor> else \<lceil>x\<rceil>)"
| "int_of_float NaN = Inl ValueError"
| "int_of_float x = Inl OverflowError"

subsection \<open>The layer\<close>

text \<open>
  A video layer after \<^verbatim>\<open>Video.__init__\<close>: the open reader and the metadata read
  from it.
\<close>

record video =
  video_file :: path
  reader :: imageio_reader
  fps :: pyfloat
  video_size :: "nat \<times> nat"
  n_frame :: int
  video_duration :: pyfloat

text \<open>\<^verbatim>\<open>Video.get_key(time)\<close>\<close>

definition Video_get_key :: "video \<Rightarrow> pyfloat \<Rightarrow> (error + int) \<times> video" where
  "Video_get_key v t =
     (if float_less t (Finite 0) \<or> float_less (video_duration v) t then (Inr (- 1), v)
      else (case int_of_float (fmul t (fps v)) of
              Inl e \<Rightarrow> (Inl e, v)
            | Inr frame_index \<Rightarrow> (Inr frame_index, v)))"

text \<open>\<^verbatim>\<open>Video.__call__(time)\<close>\<close>

definition Video_call :: "video \<Rightarrow> pyfloat \<Rightarrow> (error + ndarray) \<times> video" where
  "Video_call v t =
     (case int_of_float (fmul t (fps v)) of
        Inl e \<Rightarrow> (Inl e, v)
      | Inr frame_index \<Rightarrow>
          (case get_data (reader v) frame_index of
             (Inl e, rd) \<Rightarrow> (Inl e, v\<lparr>reader := rd\<rparr>)
           | (Inr frame, rd) \<Rightarrow>
               (case fromarray frame of
                  Inl e \<Rightarrow> (Inl e, v\<lparr>reader := rd\<rparr>)
                | Inr pil_frame \<Rightarrow>
                    (Inr (asarray (convert_RGBA pil_frame)), v\<lparr>reader := rd\<rparr>))))"

section \<open>Concrete inputs\<close>

definition red_pixel :: pil_image where
  "red_pixel = \<lparr>im_mode = ModeRGB, im_size = (1, 1), im_bands = [255, 0, 0]\<rparr>"

definition disk :: filesystem where
  "disk = (\<lambda>p. if p = ''a.png'' then Some (ImageFile red_pixel)
                else if p = ''notes.txt'' then Some NotAnImage
                else None)"

definition gray_float :: ndarray where
  "gray_float = \<lparr>shape = [1, 1], dtype = Float64, flat = [0]\<rparr>"

definition frame_of :: "int \<Rightarrow> ndarray" where
  "frame_of i = \<lparr>shape = [1, 1, 3], dtype = UInt8, flat = [i, i, i]\<rparr>"

text \<open>A clip of three frames at two frames per second.\<close>

definition clip :: video where
  "clip =
     \<lparr>video_file = ''clip.mp4'',
      reader =
        \<lparr>rd_frames = (\<lambda>i. if 0 \<le> i \<and> i < 3 then Inr (frame_of i) else Inl IndexError),
         rd_last_index = None\<rparr>,
      fps = Finite 2, video_size = (1, 1), n_frame = 3, video_duration = Finite (3 / 2)\<rparr>"

text \<open>
  The same reader behind a layer of 30 frames per second and one second; and the double
  nearest to \<open>0.7\<close>, which is \<open>3152519739159347 / 2\<^sup>5\<^sup>2\<close>.
\<close>

definition clip30 :: video where
  "clip30 = clip\<lparr>fps := Finite 30, video_duration := Finite 1\<rparr>"

definition seven_tenths :: real where
  "seven_tenths = 3152519739159347 / 2 ^ 52"

definition gray22 :: ndarray where
  "gray22 = \<lparr>shape = [2, 2], dtype = UInt8, flat = [10, 20, 30, 40]\<rparr>"

definition red_rgba :: ndarray where
  "red_rgba = \<lparr>shape = [1, 1, 4], dtype = UInt8, flat = [255, 0, 0, 255]\<rparr>"

text \<open>The file system after every file has been removed.\<close>

definition no_files :: filesystem where
  "no_files = (\<lambda>p. None)"

text \<open>A still image layer constructed from a path, before its first use.\<close>

definition still :: image_layer where
  "still = \<lparr>image = None, img_file = Some ''a.png'', image_duration = 2\<rparr>"

text \<open>A sequence of a file and an in-memory grayscale array, one second each.\<close>

definition slides :: image_sequence where
  "slides =
     \<lparr>start_times = [0, 1], end_times = [1, 2],
      img_files = [PathInput ''a.png'', ArrayInput gray22],
      images = [None, Some gray22]\<rparr>"

definition gray22_rgba :: ndarray where
  "gray22_rgba =
     \<lparr>shape = [2, 2, 4], dtype = UInt8,
      flat = [10, 10, 10, 255, 20, 20, 20, 255, 30, 30, 30, 255, 40, 40, 40, 255]\<rparr>"


definition slides_played :: image_sequence where
  "slides_played = slides\<lparr>images := [Some red_rgba, Some gray22]\<rparr>"

section \<open>Image: the visibility window\<close>

text \<open>
  C4. A still image layer constructed with duration \<open>d\<close> from any input that
  construction accepts (path, PIL image or array) answers \<open>get_key(t)\<close> with true
  exactly when \<open>0 \<le> t < d\<close>: false at \<open>t = d\<close> and false at every negative time.
\<close>

theorem Image_get_key_window:
  assumes "Image_init fs inp d = Inr l"
  shows "fst (Image_get_key l t) = (0 \<le> t \<and> t < d)
       \<and> fst (Image_get_key l d) = False
       \<and> (t < 0 \<longrightarrow> fst (Image_get_key l t) = False)"
proof -
  have "image_duration l = d"
    using assms
    by (auto simp: Image_init_def Let_def split: img_input.splits if_splits)
  then show ?thesis
    by (simp add: Image_get_key_def)
qed

theorem Image_get_key_window_witness:
  "Image_init disk (PathInput ''a.png'') 2 =
      Inr \<lparr>image = None, img_file = Some ''a.png'', image_duration = 2\<rparr>
   \<and> fst (Image_get_key \<lparr>image = None, img_file = Some ''a.png'', image_duration = 2\<rparr> 1) = True
   \<and> fst (Image_get_key \<lparr>image = None, img_file = Some ''a.png'', image_duration = 2\<rparr> 2) = False"
proof -
  have h: "Image_init disk (PathInput ''a.png'') 2 =
      Inr \<lparr>image = None, img_file = Some ''a.png'', image_duration = 2\<rparr>"
    by (simp add: Image_init_def exists_def disk_def)
  show ?thesis
    using h Image_get_key_window [OF h, of 1] Image_get_key_window [OF h, of 2]
    by simp
qed

section \<open>Video: the frame index\<close>

subsection \<open>Rounding to a double\<close>

lemma pow2_pos: "0 < pow2 e"
  by (simp add: pow2_def)

lemma pow2_powr: "pow2 e = 2 powr (real_of_int e)"
  by (simp add: pow2_def powr_real_of_int inverse_eq_divide)

lemma pow2_add: "pow2 (a + b) = pow2 a * pow2 b"
  by (simp add: pow2_powr powr_add)

lemma pow2_mono: "a \<le> b \<Longrightarrow> pow2 a \<le> pow2 b"
  by (simp add: pow2_powr)

lemma pow2_nat: "0 \<le> e \<Longrightarrow> pow2 e = of_int (2 ^ nat e)"
  by (simp add: pow2_def)

lemma pow2_floor_log:
  assumes "0 < x"
  shows "pow2 \<lfloor>log 2 x\<rfloor> \<le> x" "x < pow2 (\<lfloor>log 2 x\<rfloor> + 1)"
proof -
  have "2 powr (real_of_int \<lfloor>log 2 x\<rfloor>) \<le> 2 powr (log 2 x)"
    by (simp del: powr_log_cancel)
  then show "pow2 \<lfloor>log 2 x\<rfloor> \<le> x"
    using assms by (simp add: pow2_powr)
  have "log 2 x < real_of_int (\<lfloor>log 2 x\<rfloor> + 1)"
    by linarith
  then have "2 powr (log 2 x) < 2 powr (real_of_int (\<lfloor>log 2 x\<rfloor> + 1))"
    by (simp del: powr_log_cancel of_int_add)
  then show "x < pow2 (\<lfloor>log 2 x\<rfloor> + 1)"
    using assms by (simp add: pow2_powr)
qed

lemma floor_log_binade:
  assumes "pow2 L \<le> x" "x < pow2 (L + 1)"
  shows "\<lfloor>log 2 x\<rfloor> = L"
proof -
  have x: "0 < x" using assms(1) pow2_pos [of L] by linarith
  have "2 powr (real_of_int L) \<le> x" using assms(1) by (simp add: pow2_powr)
  then have a: "real_of_int L \<le> log 2 x"
    using x by (simp add: le_log_iff)
  have "x < 2 powr (real_of_int (L + 1))" using assms(2) by (simp add: pow2_powr)
  then have b: "log 2 x < real_of_int (L + 1)"
    using x by (simp add: log_less_iff del: of_int_add)
  show ?thesis using a b by (intro floor_unique) simp_all
qed

lemma round_half_even_floor:
  "\<lfloor>q\<rfloor> \<le> round_half_even q" "round_half_even q \<le> \<lfloor>q\<rfloor> + 1"
  by (simp_all add: round_half_even_def Let_def)

lemma round_half_even_lower:
  assumes "of_int N \<le> q"
  shows "N \<le> round_half_even q"
proof -
  have "N \<le> \<lfloor>q\<rfloor>" using assms by (simp add: le_floor_iff)
  then show ?thesis using round_half_even_floor(1) [of q] by linarith
qed

lemma round_half_even_upper:
  assumes "q \<le> of_int M"
  shows "round_half_even q \<le> M"
proof (cases "\<lfloor>q\<rfloor> < M")
  case True
  then show ?thesis using round_half_even_floor(2) [of q] by linarith
next
  case False
  have "\<lfloor>q\<rfloor> \<le> \<lfloor>real_of_int M\<rfloor>" using assms by (rule floor_mono)
  then have "\<lfloor>q\<rfloor> \<le> M" by simp
  then have "\<lfloor>q\<rfloor> = M" using False by simp
  then have "q = of_int M" using assms by linarith
  then show ?thesis by (simp add: round_half_even_def)
qed

lemma round_half_even_int: "round_half_even (of_int n) = n"
  by (simp add: round_half_even_def)

lemma round_half_even_mono:
  assumes "q \<le> q'"
  shows "round_half_even q \<le> round_half_even q'"
proof (cases "\<lfloor>q\<rfloor> = \<lfloor>q'\<rfloor>")
  case True
  then show ?thesis using assms by (auto simp: round_half_even_def Let_def)
next
  case False
  have "\<lfloor>q\<rfloor> \<le> \<lfloor>q'\<rfloor>" using assms by (rule floor_mono)
  then have "\<lfloor>q\<rfloor> + 1 \<le> \<lfloor>q'\<rfloor>" using False by simp
  moreover note round_half_even_floor(2) [of q] round_half_even_floor(1) [of q']
  ultimately show ?thesis by linarith
qed

text \<open>Evaluating the rounding once the binade of the argument is known.\<close>

lemma round_to_ulp_binade:
  assumes "pow2 L \<le> \<bar>x\<bar>" "\<bar>x\<bar> < pow2 (L + 1)"
  shows "round_to_ulp x =
           of_int (round_half_even (x / pow2 (max (L - 52) (- 1074)))) * pow2 (max (L - 52) (- 1074))"
proof -
  have "x \<noteq> 0" using assms(1) pow2_pos [of L] by auto
  then show ?thesis
    using floor_log_binade [OF assms] by (simp add: round_to_ulp_def ulp_exponent_def)
qed

text \<open>
  Between two integers of at most 53 bits the rounding stays between them: every such
  integer is a multiple of the unit in the last place.
\<close>

lemma round_to_ulp_between:
  assumes "0 \<le> n" "of_int n \<le> x" "x \<le> of_int m" "x < 2 ^ 53"
  shows "of_int n \<le> round_to_ulp x \<and> round_to_ulp x \<le> of_int m"
proof (cases "x = 0")
  case True
  then show ?thesis using assms by (simp add: round_to_ulp_def)
next
  case False
  then have x: "0 < x" using assms by linarith
  define e where "e = ulp_exponent x"
  define k where "k = nat (- e)"
  have "x < pow2 53" using assms(4) by (simp add: pow2_def)
  then have "\<not> pow2 53 \<le> pow2 \<lfloor>log 2 x\<rfloor>"
    using pow2_floor_log(1) [OF x] by linarith
  then have "\<lfloor>log 2 x\<rfloor> < 53" using pow2_mono [of 53 "\<lfloor>log 2 x\<rfloor>"] by linarith
  then have "e \<le> 0" using x by (simp add: e_def ulp_exponent_def)
  then have p: "pow2 e = 1 / 2 ^ k"
    by (cases "e = 0") (simp_all add: pow2_def k_def)
  have q: "x / pow2 e = x * 2 ^ k" by (simp add: p)
  have "of_int (n * 2 ^ k) \<le> x * 2 ^ k" using assms(2) by simp
  then have lo: "n * 2 ^ k \<le> round_half_even (x / pow2 e)"
    unfolding q by (rule round_half_even_lower)
  have "x * 2 ^ k \<le> of_int (m * 2 ^ k)" using assms(3) by simp
  then have hi: "round_half_even (x / pow2 e) \<le> m * 2 ^ k"
    unfolding q by (rule round_half_even_upper)
  have r: "round_to_ulp x = of_int (round_half_even (x / pow2 e)) / 2 ^ k"
    using False by (simp add: round_to_ulp_def e_def [symmetric] p)
  have "real_of_int (n * 2 ^ k) \<le> of_int (round_half_even (x / pow2 e))"
    using lo by (simp only: of_int_le_iff)
  then have a: "of_int n \<le> round_to_ulp x"
    unfolding r by (simp add: pos_le_divide_eq)
  have "real_of_int (round_half_even (x / pow2 e)) \<le> of_int (m * 2 ^ k)"
    using hi by (simp only: of_int_le_iff)
  then have b: "round_to_ulp x \<le> of_int m"
    unfolding r by (simp add: pos_divide_le_eq)
  show ?thesis using a b by simp
qed

lemma round_to_ulp_nonneg: "0 \<le> x \<Longrightarrow> 0 \<le> round_to_ulp x"
  using round_half_even_lower [of 0 "x / pow2 (ulp_exponent x)"] pow2_pos [of "ulp_exponent x"]
  by (simp add: round_to_ulp_def)

text \<open>Rounding is monotone (shown here on the non-negative reals).\<close>

lemma round_to_ulp_mono:
  assumes "0 \<le> x" "x \<le> x'"
  shows "round_to_ulp x \<le> round_to_ulp x'"
proof (cases "x = 0")
  case True
  then show ?thesis using round_to_ulp_nonneg [of x'] assms by (simp add: round_to_ulp_def)
next
  case False
  then have x: "0 < x" "0 < x'" using assms by linarith+
  define L where "L = \<lfloor>log 2 x\<rfloor>"
  define L' where "L' = \<lfloor>log 2 x'\<rfloor>"
  define e where "e = ulp_exponent x"
  define e' where "e' = ulp_exponent x'"
  have ee: "e = max (L - 52) (- 1074)" "e' = max (L' - 52) (- 1074)"
    using x by (simp_all add: e_def e'_def L_def L'_def ulp_exponent_def)
  have "log 2 x \<le> log 2 x'" using x assms by simp
  then have LL: "L \<le> L'" unfolding L_def L'_def by (rule floor_mono)
  have r: "round_to_ulp x = of_int (round_half_even (x / pow2 e)) * pow2 e"
    "round_to_ulp x' = of_int (round_half_even (x' / pow2 e')) * pow2 e'"
    using x by (simp_all add: round_to_ulp_def e_def e'_def)
  show ?thesis
  proof (cases "e = e'")
    case True
    have "x / pow2 e \<le> x' / pow2 e"
      using assms pow2_pos [of e] by (simp add: divide_right_mono)
    then have "round_half_even (x / pow2 e) \<le> round_half_even (x' / pow2 e)"
      by (rule round_half_even_mono)
    then have "real_of_int (round_half_even (x / pow2 e)) \<le> of_int (round_half_even (x' / pow2 e))"
      by (simp only: of_int_le_iff)
    then show ?thesis
      unfolding r True [symmetric] using pow2_pos [of e] by (simp add: mult_right_mono)
  next
    case False
    then have lt: "e < e'" using ee LL by linarith
    then have e': "e' = L' - 52" and L: "L + 1 \<le> L'" using ee by linarith+
    have le: "e \<le> L'" using lt e' by simp
    have "x < pow2 (L + 1)" unfolding L_def by (rule pow2_floor_log(2) [OF x(1)])
    then have "x \<le> pow2 L'" using pow2_mono [OF L] by linarith
    also have "pow2 L' = pow2 (L' - e) * pow2 e"
      using pow2_add [of "L' - e" e] by simp
    also have "pow2 (L' - e) = of_int (2 ^ nat (L' - e))"
      using le by (simp add: pow2_nat)
    finally have "x / pow2 e \<le> of_int (2 ^ nat (L' - e))"
      using pow2_pos [of e] by (simp add: pos_divide_le_eq)
    then have "round_half_even (x / pow2 e) \<le> 2 ^ nat (L' - e)"
      by (rule round_half_even_upper)
    then have "real_of_int (round_half_even (x / pow2 e)) \<le> of_int (2 ^ nat (L' - e))"
      by (simp only: of_int_le_iff)
    then have "round_to_ulp x \<le> of_int (2 ^ nat (L' - e)) * pow2 e"
      unfolding r using pow2_pos [of e] by (simp add: mult_right_mono)
    also have "\<dots> = pow2 (L' - e) * pow2 e" using le by (simp add: pow2_nat)
    also have "\<dots> = pow2 L'" using pow2_add [of "L' - e" e] by simp
    finally have a: "round_to_ulp x \<le> pow2 L'" .
    have "pow2 L' \<le> x'" unfolding L'_def by (rule pow2_floor_log(1) [OF x(2)])
    moreover have "pow2 L' = pow2 52 * pow2 e'"
      using pow2_add [of 52 e'] e' by simp
    ultimately have "pow2 52 \<le> x' / pow2 e'"
      using pow2_pos [of e'] by (simp add: pos_le_divide_eq)
    then have "of_int (2 ^ 52) \<le> x' / pow2 e'" by (simp add: pow2_def)
    then have "2 ^ 52 \<le> round_half_even (x' / pow2 e')"
      by (rule round_half_even_lower)
    then have "real_of_int (2 ^ 52) \<le> of_int (round_half_even (x' / pow2 e'))"
      by (simp only: of_int_le_iff)
    then have "of_int (2 ^ 52) * pow2 e' \<le> round_to_ulp x'"
      unfolding r using pow2_pos [of e'] by (simp add: mult_right_mono)
    moreover have "of_int (2 ^ 52) * pow2 e' = pow2 L'"
      using pow2_add [of 52 e'] e' by (simp add: pow2_def)
    ultimately have b: "pow2 L' \<le> round_to_ulp x'" by simp
    show ?thesis using a b by linarith
  qed
qed

lemma round_double_Finite: "round_double x = Finite y \<Longrightarrow> y = round_to_ulp x"
  by (simp add: round_double_def Let_def split: if_splits)

lemma round_double_between:
  assumes "0 \<le> n" "of_int n \<le> x" "x \<le> of_int m" "x < 2 ^ 53" "m \<le> 2 ^ 53"
  shows "round_double x = Finite (round_to_ulp x)
       \<and> of_int n \<le> round_to_ulp x \<and> round_to_ulp x \<le> of_int m"
proof -
  have b: "of_int n \<le> round_to_ulp x \<and> round_to_ulp x \<le> of_int m"
    using assms(1-4) by (rule round_to_ulp_between)
  have "real_of_int m \<le> real_of_int (2 ^ 53)" using assms(5) by (simp only: of_int_le_iff)
  moreover have "real_of_int (2 ^ 53) = 2 ^ 53" by simp
  ultimately have "round_to_ulp x \<le> 2 ^ 53" using b by linarith
  moreover have "(2::real) ^ 53 < 2 ^ 1024" by simp
  moreover have "0 \<le> round_to_ulp x" using b assms(1) by simp
  ultimately show ?thesis using b by (simp add: round_double_def Let_def)
qed

subsection \<open>The products of the concrete inputs\<close>

lemma ceiling_minus_half: "\<lceil>- (1 / 2) :: real\<rceil> = 0"
  by (rule ceiling_unique) simp_all

lemma round_double_21: "round_double (seven_tenths * 30) = Finite 21"
proof -
  have "round_to_ulp (seven_tenths * 30) = 21"
    using round_to_ulp_binade [of 4 "seven_tenths * 30"]
    by (simp add: seven_tenths_def pow2_def round_half_even_def)
  then show ?thesis by (simp add: round_double_def)
qed

lemma round_double_minus_half: "round_double (- (1 / 2)) = Finite (- (1 / 2))"
proof -
  have "round_to_ulp (- (1 / 2)) = - (1 / 2)"
    using round_to_ulp_binade [of "- 1" "- (1 / 2)"]
    by (simp add: pow2_def round_half_even_def)
  then show ?thesis by (simp add: round_double_def)
qed

lemma round_double_small_int:
  assumes "0 \<le> n" "n < 2 ^ 53"
  shows "round_double (of_int n) = Finite (of_int n)"
proof -
  have "real_of_int n < real_of_int (2 ^ 53)" using assms(2) by (simp only: of_int_less_iff)
  then have "real_of_int n < 2 ^ 53" by simp
  then have "round_double (of_int n) = Finite (round_to_ulp (of_int n))
       \<and> of_int n \<le> round_to_ulp (of_int n) \<and> round_to_ulp (of_int n) \<le> of_int n"
    using assms by (intro round_double_between) simp_all
  then show ?thesis by simp
qed

lemma round_double_overflow: "round_double (2 ^ 1023 * 2) = PosInf"
proof -
  have "round_to_ulp (2 ^ 1023 * 2) = 2 ^ 1024"
    using round_to_ulp_binade [of 1024 "2 ^ 1023 * 2"]
    by (simp add: pow2_def round_half_even_def)
  then show ?thesis by (simp add: round_double_def)
qed

subsection \<open>get_key\<close>

lemma Video_get_key_window:
  "\<not> float_less t (Finite 0) \<Longrightarrow> \<not> float_less (video_duration v) t \<Longrightarrow>
   fst (Video_get_key v t) = int_of_float (fmul t (fps v))"
  by (simp add: Video_get_key_def split: sum.splits)

lemma int_of_float_Inr:
  "int_of_float x = Inr k \<Longrightarrow> \<exists>y. x = Finite y \<and> k = (if 0 \<le> y then \<lfloor>y\<rfloor> else \<lceil>y\<rceil>)"
  by (cases x) auto

lemma float_less_window:
  "a \<le> a' \<Longrightarrow> \<not> float_less d (Finite a') \<Longrightarrow> \<not> float_less d (Finite a)"
  by (cases d) auto

lemma Video_get_key_near_floor:
  assumes "0 \<le> a" "0 \<le> f" "a * f < 2 ^ 53" "fps v = Finite f"
    "\<not> float_less (video_duration v) (Finite a)"
  shows "\<exists>y. fmul (Finite a) (fps v) = Finite y
            \<and> of_int \<lfloor>a * f\<rfloor> \<le> y \<and> y \<le> of_int \<lfloor>a * f\<rfloor> + 1
            \<and> fst (Video_get_key v (Finite a)) = Inr \<lfloor>y\<rfloor>"
proof -
  define n where "n = \<lfloor>a * f\<rfloor>"
  have x: "0 \<le> a * f" using assms by simp
  then have n: "0 \<le> n" by (simp add: n_def)
  have "a * f < real_of_int (2 ^ 53)" using assms(3) by simp
  then have "n < 2 ^ 53" unfolding n_def by (simp only: floor_less_iff)
  then have m: "n + 1 \<le> 2 ^ 53" by simp
  have "of_int n \<le> a * f" "a * f \<le> of_int (n + 1)" unfolding n_def by linarith+
  then have r: "round_double (a * f) = Finite (round_to_ulp (a * f))
       \<and> of_int n \<le> round_to_ulp (a * f) \<and> round_to_ulp (a * f) \<le> of_int (n + 1)"
    using n assms(3) m by (intro round_double_between) simp_all
  then have "0 \<le> round_to_ulp (a * f)" using n by linarith
  then have "fst (Video_get_key v (Finite a)) = Inr \<lfloor>round_to_ulp (a * f)\<rfloor>"
    using Video_get_key_window [of "Finite a" v] assms r by simp
  then show ?thesis using r assms(4) by (simp add: n_def)
qed

lemma Video_get_key_mono:
  assumes "0 \<le> a" "a \<le> a'" "0 \<le> f" "fps v = Finite f"
    "\<not> float_less (video_duration v) (Finite a')"
    "fst (Video_get_key v (Finite a)) = Inr k" "fst (Video_get_key v (Finite a')) = Inr k'"
  shows "k \<le> k'"
proof -
  have w: "\<not> float_less (video_duration v) (Finite a)"
    using assms(2,5) by (rule float_less_window)
  have "int_of_float (round_double (a * f)) = Inr k"
    using Video_get_key_window [of "Finite a" v] assms w by simp
  then obtain y where y: "round_double (a * f) = Finite y" "k = (if 0 \<le> y then \<lfloor>y\<rfloor> else \<lceil>y\<rceil>)"
    using int_of_float_Inr by blast
  have "int_of_float (round_double (a' * f)) = Inr k'"
    using Video_get_key_window [of "Finite a'" v] assms by simp
  then obtain y' where y': "round_double (a' * f) = Finite y'" "k' = (if 0 \<le> y' then \<lfloor>y'\<rfloor> else \<lceil>y'\<rceil>)"
    using int_of_float_Inr by blast
  have x: "0 \<le> a * f" "a * f \<le> a' * f" using assms by (simp_all add: mult_right_mono)
  have "y = round_to_ulp (a * f)" "y' = round_to_ulp (a' * f)"
    using y(1) y'(1) by (simp_all add: round_double_Finite)
  then have "0 \<le> y" "y \<le> y'"
    using round_to_ulp_nonneg [OF x(1)] round_to_ulp_mono [OF x] by simp_all
  then show ?thesis using y(2) y'(2) by (simp add: floor_mono)
qed

text \<open>
  C2, as stated, fails: \<open>3152519739159347 / 2\<^sup>5\<^sup>2\<close> is the double written \<^verbatim>\<open>0.7\<close>; at 30
  frames per second its exact product is \<open>21 - 6 / 2\<^sup>5\<^sup>2\<close>, whose floor is \<open>20\<close>, but the
  product Python computes is the double \<open>21.0\<close> and \<open>get_key\<close> returns \<open>21\<close>.
\<close>

theorem Video_get_key_rounds_counterexample:
  "fst (Video_get_key clip30 (Finite seven_tenths)) = Inr 21
   \<and> \<lfloor>seven_tenths * 30\<rfloor> = 20
   \<and> 0 \<le> seven_tenths \<and> seven_tenths \<le> 1
   \<and> fps clip30 = Finite 30 \<and> video_duration clip30 = Finite 1"
  using round_double_21
  by (simp add: Video_get_key_def clip30_def) (simp add: seven_tenths_def)

text \<open>
  C2, amended. \<open>get_key(t)\<close> is \<open>-1\<close> when \<open>t < 0\<close> or \<open>t > d\<close>, and otherwise
  \<open>int(t * fps)\<close> as Python computes it: the product rounded to the nearest double, its
  fractional part then dropped (\<^verbatim>\<open>OverflowError\<close> or \<^verbatim>\<open>ValueError\<close> when the product
  is infinite or NaN). For \<open>fps \<ge> 0\<close> and an exact product below \<open>2\<^sup>5\<^sup>3\<close> the rounded
  product lies between \<open>floor(t * fps)\<close> and \<open>floor(t * fps) + 1\<close>, so the key is one of
  these two, the larger one exactly when the product is rounded up to that integer; it
  is the exact product when that is an integer. For \<open>fps \<ge> 0\<close> the key does not
  decrease as \<open>t\<close> grows over \<open>[0, d]\<close>.
\<close>

theorem Video_get_key_index:
  "(float_less t (Finite 0) \<or> float_less (video_duration v) t \<longrightarrow>
      fst (Video_get_key v t) = Inr (- 1))
   \<and> (\<not> float_less t (Finite 0) \<and> \<not> float_less (video_duration v) t \<longrightarrow>
        fst (Video_get_key v t) = int_of_float (fmul t (fps v)))
   \<and> (\<forall>a f. t = Finite a \<and> fps v = Finite f \<and> 0 \<le> a \<and> \<not> float_less (video_duration v) t
          \<and> 0 \<le> f \<and> a * f < 2 ^ 53 \<longrightarrow>
        (\<exists>y. fmul t (fps v) = Finite y
            \<and> of_int \<lfloor>a * f\<rfloor> \<le> y \<and> y \<le> of_int \<lfloor>a * f\<rfloor> + 1
            \<and> fst (Video_get_key v t) = Inr \<lfloor>y\<rfloor>))
   \<and> (\<forall>a f n. t = Finite a \<and> fps v = Finite f \<and> 0 \<le> a \<and> \<not> float_less (video_duration v) t
          \<and> a * f = of_int n \<and> 0 \<le> n \<and> n < 2 ^ 53 \<longrightarrow>
        fst (Video_get_key v t) = Inr n)
   \<and> (\<forall>a a' f k k'. t = Finite a \<and> t' = Finite a' \<and> fps v = Finite f \<and> 0 \<le> f
          \<and> 0 \<le> a \<and> a \<le> a' \<and> \<not> float_less (video_duration v) t'
          \<and> fst (Video_get_key v t) = Inr k \<and> fst (Video_get_key v t') = Inr k' \<longrightarrow>
        k \<le> k')"
proof (intro conjI allI impI)
  assume "float_less t (Finite 0) \<or> float_less (video_duration v) t"
  then show "fst (Video_get_key v t) = Inr (- 1)"
    by (auto simp: Video_get_key_def)
next
  assume "\<not> float_less t (Finite 0) \<and> \<not> float_less (video_duration v) t"
  then show "fst (Video_get_key v t) = int_of_float (fmul t (fps v))"
    by (simp add: Video_get_key_window)
next
  fix a f
  assume h: "t = Finite a \<and> fps v = Finite f \<and> 0 \<le> a \<and> \<not> float_less (video_duration v) t
          \<and> 0 \<le> f \<and> a * f < 2 ^ 53"
  then have "0 \<le> a" "0 \<le> f" "a * f < 2 ^ 53" "fps v = Finite f"
    "\<not> float_less (video_duration v) (Finite a)"
    by auto
  then have "\<exists>y. fmul (Finite a) (fps v) = Finite y
            \<and> of_int \<lfloor>a * f\<rfloor> \<le> y \<and> y \<le> of_int \<lfloor>a * f\<rfloor> + 1
            \<and> fst (Video_get_key v (Finite a)) = Inr \<lfloor>y\<rfloor>"
    by (rule Video_get_key_near_floor)
  then show "\<exists>y. fmul t (fps v) = Finite y
            \<and> of_int \<lfloor>a * f\<rfloor> \<le> y \<and> y \<le> of_int \<lfloor>a * f\<rfloor> + 1
            \<and> fst (Video_get_key v t) = Inr \<lfloor>y\<rfloor>"
    using h by simp
next
  fix a f n
  assume h: "t = Finite a \<and> fps v = Finite f \<and> 0 \<le> a \<and> \<not> float_less (video_duration v) t
          \<and> a * f = of_int n \<and> 0 \<le> n \<and> n < 2 ^ 53"
  then have e: "t = Finite a" "fps v = Finite f" "\<not> float_less (Finite a) (Finite 0)"
    "\<not> float_less (video_duration v) (Finite a)" "a * f = of_int n" "0 \<le> n" "n < 2 ^ 53"
    by auto
  have "round_double (a * f) = Finite (of_int n)"
    unfolding e(5) using e(6,7) by (rule round_double_small_int)
  then show "fst (Video_get_key v t) = Inr n"
    using Video_get_key_window [OF e(3,4)] e(1,2,6) by simp
next
  fix a a' f k k'
  assume h: "t = Finite a \<and> t' = Finite a' \<and> fps v = Finite f \<and> 0 \<le> f
          \<and> 0 \<le> a \<and> a \<le> a' \<and> \<not> float_less (video_duration v) t'
          \<and> fst (Video_get_key v t) = Inr k \<and> fst (Video_get_key v t') = Inr k'"
  show "k \<le> k'"
    by (rule Video_get_key_mono [of a a' f v]) (use h in auto)
qed

theorem Video_get_key_index_witness:
  "fst (Video_get_key clip30 (Finite (- 1))) = Inr (- 1)
   \<and> fst (Video_get_key clip30 (Finite 2)) = Inr (- 1)
   \<and> fst (Video_get_key clip30 (Finite seven_tenths)) = Inr 21
   \<and> (\<exists>y. fmul (Finite seven_tenths) (fps clip30) = Finite y \<and> 20 \<le> y \<and> y \<le> 21
          \<and> fst (Video_get_key clip30 (Finite seven_tenths)) = Inr \<lfloor>y\<rfloor>)
   \<and> fst (Video_get_key clip30 (Finite (1 / 2))) = Inr 15
   \<and> fst (Video_get_key clip30 (Finite (1 / 2))) \<noteq> fst (Video_get_key clip30 (Finite seven_tenths))"
proof -
  have c: "fps clip30 = Finite 30" "video_duration clip30 = Finite 1"
    by (simp_all add: clip30_def)
  have s: "0 \<le> seven_tenths" "seven_tenths \<le> 1" "seven_tenths * 30 < 2 ^ 53"
    "\<lfloor>seven_tenths * 30\<rfloor> = 20"
    by (simp_all add: seven_tenths_def)
  have k1: "fst (Video_get_key clip30 (Finite (- 1))) = Inr (- 1)"
    using Video_get_key_index [of "Finite (- 1)" clip30] by simp
  have k2: "fst (Video_get_key clip30 (Finite 2)) = Inr (- 1)"
    using Video_get_key_index [of "Finite 2" clip30] by (simp add: c)
  have k3: "fst (Video_get_key clip30 (Finite seven_tenths)) = Inr 21"
    using Video_get_key_index [of "Finite seven_tenths" clip30] round_double_21 s
    by (simp add: c)
  have "\<exists>y. fmul (Finite seven_tenths) (fps clip30) = Finite y
          \<and> of_int \<lfloor>seven_tenths * 30\<rfloor> \<le> y \<and> y \<le> of_int \<lfloor>seven_tenths * 30\<rfloor> + 1
          \<and> fst (Video_get_key clip30 (Finite seven_tenths)) = Inr \<lfloor>y\<rfloor>"
    using Video_get_key_index [of "Finite seven_tenths" clip30, THEN conjunct2,
        THEN conjunct2, THEN conjunct1, rule_format, of seven_tenths 30] s(1-3) c
    by simp
  then have k4: "\<exists>y. fmul (Finite seven_tenths) (fps clip30) = Finite y \<and> 20 \<le> y \<and> y \<le> 21
          \<and> fst (Video_get_key clip30 (Finite seven_tenths)) = Inr \<lfloor>y\<rfloor>"
    unfolding s(4) by simp
  have k5: "fst (Video_get_key clip30 (Finite (1 / 2))) = Inr 15"
    using Video_get_key_index [of "Finite (1 / 2)" clip30, THEN conjunct2, THEN conjunct2,
        THEN conjunct2, THEN conjunct1, rule_format, of "1 / 2" 30 15] c
    by simp
  show ?thesis using k1 k2 k3 k4 k5 by simp
qed

subsection \<open>evaluate\<close>

text \<open>
  C3, as stated, fails: at \<open>t = -1/4\<close> on a clip of 2 frames per second the product is
  \<open>-1/2\<close>, a double, whose floor is \<open>-1\<close>, but \<open>evaluate\<close> asks the decoder for frame \<open>0\<close>
  and returns it.
\<close>

theorem Video_call_truncates_counterexample:
  "rd_last_index (reader (snd (Video_call clip (Finite (- 1 / 4))))) = Some 0
   \<and> fst (Video_call clip (Finite (- 1 / 4))) =
       Inr \<lparr>shape = [1, 1, 4], dtype = UInt8, flat = [0, 0, 0, 255]\<rparr>
   \<and> fps clip = Finite 2 \<and> \<lfloor>(- 1 / 4) * 2 :: real\<rfloor> = - 1"
  using round_double_minus_half
  by (simp add: Video_call_def get_data_def clip_def fromarray_def ndim_def frame_of_def
      asarray_def convert_RGBA_def chunks.simps ceiling_minus_half)

text \<open>
  C3, amended. For every time \<open>t\<close>, \<open>evaluate\<close> computes its frame index by the
  expression of \<open>get_key\<close>, \<open>int(t * fps)\<close>: the product rounded to the nearest double,
  its fractional part then dropped towards zero, which is the floor of the rounded
  product when that is not negative and its ceiling when it is. When the product is
  infinite or NaN, \<open>int\<close> raises \<^verbatim>\<open>OverflowError\<close> or \<^verbatim>\<open>ValueError\<close> and the decoder is
  not asked. Otherwise the decoder handle is asked for the frame at that index and
  the frame is returned converted to RGBA, or the decoder's error. Inside its window
  \<open>get_key\<close> returns the same index. Neither the duration nor the frame count takes
  part: changing them changes nothing in the result.
\<close>

theorem Video_call_index:
  "Video_call v t =
     (case int_of_float (fmul t (fps v)) of
        Inl e \<Rightarrow> (Inl e, v)
      | Inr i \<Rightarrow>
          ((case rd_frames (reader v) i of
              Inl e \<Rightarrow> Inl e
            | Inr frame \<Rightarrow>
                (case fromarray frame of
                   Inl e \<Rightarrow> Inl e
                 | Inr im \<Rightarrow> Inr (asarray (convert_RGBA im)))),
           v\<lparr>reader := (reader v)\<lparr>rd_last_index := Some i\<rparr>\<rparr>))
   \<and> (\<not> float_less t (Finite 0) \<and> \<not> float_less (video_duration v) t \<longrightarrow>
        fst (Video_get_key v t) = int_of_float (fmul t (fps v)))
   \<and> (\<forall>y. fmul t (fps v) = Finite y \<and> 0 \<le> y \<longrightarrow> int_of_float (fmul t (fps v)) = Inr \<lfloor>y\<rfloor>)
   \<and> (\<forall>y. fmul t (fps v) = Finite y \<and> y < 0 \<longrightarrow> int_of_float (fmul t (fps v)) = Inr \<lceil>y\<rceil>)
   \<and> (fmul t (fps v) = PosInf \<or> fmul t (fps v) = NegInf \<longrightarrow>
        Video_call v t = (Inl OverflowError, v))
   \<and> (fmul t (fps v) = NaN \<longrightarrow> Video_call v t = (Inl ValueError, v))
   \<and> fst (Video_call (v\<lparr>n_frame := n, video_duration := d\<rparr>) t) = fst (Video_call v t)"
proof (intro conjI allI impI)
  show "Video_call v t =
     (case int_of_float (fmul t (fps v)) of
        Inl e \<Rightarrow> (Inl e, v)
      | Inr i \<Rightarrow>
          ((case rd_frames (reader v) i of
              Inl e \<Rightarrow> Inl e
            | Inr frame \<Rightarrow>
                (case fromarray frame of
                   Inl e \<Rightarrow> Inl e
                 | Inr im \<Rightarrow> Inr (asarray (convert_RGBA im)))),
           v\<lparr>reader := (reader v)\<lparr>rd_last_index := Some i\<rparr>\<rparr>))"
    by (simp add: Video_call_def get_data_def split: sum.splits)
next
  assume "\<not> float_less t (Finite 0) \<and> \<not> float_less (video_duration v) t"
  then show "fst (Video_get_key v t) = int_of_float (fmul t (fps v))"
    by (simp add: Video_get_key_window)
next
  fix y assume "fmul t (fps v) = Finite y \<and> 0 \<le> y"
  then show "int_of_float (fmul t (fps v)) = Inr \<lfloor>y\<rfloor>" by simp
next
  fix y assume "fmul t (fps v) = Finite y \<and> y < 0"
  then show "int_of_float (fmul t (fps v)) = Inr \<lceil>y\<rceil>" by simp
next
  assume "fmul t (fps v) = PosInf \<or> fmul t (fps v) = NegInf"
  then show "Video_call v t = (Inl OverflowError, v)"
    by (auto simp: Video_call_def)
next
  assume "fmul t (fps v) = NaN"
  then show "Video_call v t = (Inl ValueError, v)"
    by (simp add: Video_call_def)
next
  show "fst (Video_call (v\<lparr>n_frame := n, video_duration := d\<rparr>) t) = fst (Video_call v t)"
    by (simp add: Video_call_def get_data_def split: sum.splits)
qed

theorem Video_call_index_witness:
  "fst (Video_call clip (Finite (3 / 4))) =
     Inr \<lparr>shape = [1, 1, 4], dtype = UInt8, flat = [1, 1, 1, 255]\<rparr>
   \<and> rd_last_index (reader (snd (Video_call clip (Finite (3 / 4))))) = Some 1
   \<and> fst (Video_get_key clip (Finite (3 / 4))) = Inr 1
   \<and> fst (Video_call clip (Finite (3 / 2))) = Inl IndexError
   \<and> rd_last_index (reader (snd (Video_call clip (Finite (- 1 / 4))))) = Some 0
   \<and> Video_call clip (Finite (2 ^ 1023)) = (Inl OverflowError, clip)
   \<and> Video_call clip NaN = (Inl ValueError, clip)
   \<and> Video_call clip30 (Finite seven_tenths) =
       (Inl IndexError, clip30\<lparr>reader := (reader clip30)\<lparr>rd_last_index := Some 21\<rparr>\<rparr>)"
proof -
  have c: "fps clip = Finite 2" "video_duration clip = Finite (3 / 2)" "fps clip30 = Finite 30"
    by (simp_all add: clip_def clip30_def)
  have p1: "fmul (Finite (3 / 4)) (fps clip) = Finite (3 / 2)"
    using round_to_ulp_binade [of 0 "3 / 2"]
    by (simp add: c round_double_def pow2_def round_half_even_def)
  have p2: "fmul (Finite (3 / 2)) (fps clip) = Finite 3"
    using round_double_small_int [of 3] by (simp add: c)
  have p3: "fmul (Finite (- (1 / 4))) (fps clip) = Finite (- (1 / 2))"
    using round_double_minus_half by (simp add: c)
  have p4: "fmul (Finite (2 ^ 1023)) (fps clip) = PosInf"
    using round_double_overflow by (simp add: c)
  have p5: "fmul NaN (fps clip) = NaN" by simp
  have p6: "fmul (Finite seven_tenths) (fps clip30) = Finite 21"
    using round_double_21 by (simp add: c)
  have r: "rd_frames (reader clip) 1 = Inr (frame_of 1)" "rd_frames (reader clip) 3 = Inl IndexError"
    "rd_frames (reader clip) 0 = Inr (frame_of 0)" "rd_frames (reader clip30) 21 = Inl IndexError"
    by (simp_all add: clip_def clip30_def)
  obtain b where f0: "fromarray (frame_of 0) = Inr b"
    by (simp add: fromarray_def ndim_def frame_of_def)
  have v1: "Video_call clip (Finite (3 / 4)) =
       (Inr \<lparr>shape = [1, 1, 4], dtype = UInt8, flat = [1, 1, 1, 255]\<rparr>,
        clip\<lparr>reader := (reader clip)\<lparr>rd_last_index := Some 1\<rparr>\<rparr>)"
    "fst (Video_get_key clip (Finite (3 / 4))) = Inr 1"
    using Video_call_index [of clip "Finite (3 / 4)" NaN 0] ceiling_minus_half
    by (simp_all add: p1 r c(2) fromarray_def ndim_def frame_of_def asarray_def
        convert_RGBA_def chunks.simps)
  have v2: "fst (Video_call clip (Finite (3 / 2))) = Inl IndexError"
    using Video_call_index [of clip "Finite (3 / 2)" NaN 0] by (simp add: p2 r)
  have v3: "rd_last_index (reader (snd (Video_call clip (Finite (- 1 / 4))))) = Some 0"
    using Video_call_index [of clip "Finite (- 1 / 4)" NaN 0] ceiling_minus_half
    by (simp add: p3 r f0)
  have v4: "Video_call clip (Finite (2 ^ 1023)) = (Inl OverflowError, clip)"
    using p4 Video_call_index [of clip "Finite (2 ^ 1023)" NaN 0] by blast
  have v5: "Video_call clip NaN = (Inl ValueError, clip)"
    using Video_call_index [of clip NaN NaN 0] by (simp add: p5)
  have v6: "Video_call clip30 (Finite seven_tenths) =
       (Inl IndexError, clip30\<lparr>reader := (reader clip30)\<lparr>rd_last_index := Some 21\<rparr>\<rparr>)"
    using Video_call_index [of clip30 "Finite seven_tenths" NaN 0] by (simp add: p6 r)
  show ?thesis using v1 v2 v3 v4 v5 v6 by simp
qed

section \<open>get_key changes nothing\<close>

text \<open>
  C9. On each of the three layers \<open>get_key(t)\<close> decodes nothing and returns the layer
  as it was: the cache of the still image, the cache slots of the sequence and the
  decoder handle of the video are the same after the call as before it.
\<close>

theorem get_key_pure:
  "snd (Image_get_key l t) = (l, [])
   \<and> snd (ImageSequence_get_key s t) = (s, [])
   \<and> snd (Video_get_key v t') = v"
  by (simp add: Image_get_key_def ImageSequence_get_key_def Video_get_key_def Let_def
      split: sum.splits)

section \<open>Evaluating the concrete inputs\<close>

lemma decode_red_pixel: "asarray (convert_RGBA red_pixel) = red_rgba"
  by (simp add: asarray_def convert_RGBA_def red_pixel_def red_rgba_def chunks.simps)

lemma PIL_open_disk: "PIL_open disk ''a.png'' = Inr red_pixel"
  by (simp add: PIL_open_def disk_def)

lemma PIL_open_no_files: "PIL_open no_files p = Inl FileNotFoundError"
  by (simp add: PIL_open_def no_files_def)

lemma slides_init:
  "ImageSequence_init disk [0, 1] [1, 2] [PathInput ''a.png'', ArrayInput gray22] = Inr slides"
  by (simp add: ImageSequence_init_def slides_def exists_def disk_def numeral_2_eq_2)

lemma get_state_slides: "get_state slides (1 / 2) = 0" "get_state slides (3 / 2) = 1" "get_state slides 5 = - 1"
  by (simp_all add: get_state_def slides_def)

section \<open>Image: construction\<close>

text \<open>
  C8, as stated, fails: a rank-2 array whose dtype is not \<^verbatim>\<open>uint8\<close> is none of the
  inputs the claim lists, and construction fails on it, at the assertion on the dtype.
\<close>

theorem Image_init_rank2_float_counterexample:
  "Image_init disk (ArrayInput gray_float) 1 = Inl AssertionError
   \<and> ndim gray_float = 2"
  by (simp add: Image_init_def gray_float_def ndim_def)

text \<open>
  C8, amended. Construction of a still image layer fails exactly for a path that does
  not exist (\<^verbatim>\<open>AssertionError\<close>), a rank-2 array whose dtype is not \<^verbatim>\<open>uint8\<close>
  (\<^verbatim>\<open>AssertionError\<close>), a rank-3 array without exactly 4 channels
  (\<^verbatim>\<open>AssertionError\<close>), an array of a rank other than 2 or 3 (\<^verbatim>\<open>ValueError\<close>) and a
  value of any other type (\<^verbatim>\<open>ValueError\<close>). For a path that exists it succeeds with
  an empty cache: nothing is decoded.
\<close>

theorem Image_init_failures:
  "isl (Image_init fs inp d) =
     (case inp of
        PathInput p \<Rightarrow> \<not> exists fs p
      | PILInput im \<Rightarrow> False
      | ArrayInput a \<Rightarrow>
          (ndim a = 2 \<and> dtype a \<noteq> UInt8) \<or> (ndim a = 3 \<and> shape a ! 2 \<noteq> 4)
          \<or> (ndim a \<noteq> 2 \<and> ndim a \<noteq> 3)
      | OtherInput \<Rightarrow> True)
   \<and> (\<not> exists fs p \<longrightarrow> Image_init fs (PathInput p) d = Inl AssertionError)
   \<and> (ndim a = 2 \<and> dtype a \<noteq> UInt8 \<longrightarrow> Image_init fs (ArrayInput a) d = Inl AssertionError)
   \<and> (ndim a = 3 \<and> shape a ! 2 \<noteq> 4 \<longrightarrow> Image_init fs (ArrayInput a) d = Inl AssertionError)
   \<and> (ndim a \<noteq> 2 \<and> ndim a \<noteq> 3 \<longrightarrow> Image_init fs (ArrayInput a) d = Inl ValueError)
   \<and> Image_init fs OtherInput d = Inl ValueError
   \<and> (exists fs p \<longrightarrow>
        Image_init fs (PathInput p) d = Inr \<lparr>image = None, img_file = Some p, image_duration = d\<rparr>)"
  by (auto simp: Image_init_def Let_def split: img_input.splits)

theorem Image_init_failures_witness:
  "\<not> exists disk ''b.png'' \<and> isl (Image_init disk (PathInput ''b.png'') 1)
   \<and> Image_init disk (PathInput ''b.png'') 1 = Inl AssertionError
   \<and> exists disk ''a.png''
   \<and> Image_init disk (PathInput ''a.png'') 1 =
        Inr \<lparr>image = None, img_file = Some ''a.png'', image_duration = 1\<rparr>
   \<and> ndim gray_float = 2 \<and> dtype gray_float \<noteq> UInt8
   \<and> Image_init disk (ArrayInput gray_float) 1 = Inl AssertionError"
proof -
  have h: "\<not> exists disk ''b.png''" "exists disk ''a.png''"
    "ndim gray_float = 2 \<and> dtype gray_float \<noteq> UInt8"
    by (simp_all add: exists_def disk_def gray_float_def ndim_def)
  show ?thesis
    using h Image_init_failures [of disk "PathInput ''b.png''" 1 "''b.png''" gray_float]
      Image_init_failures [of disk "PathInput ''a.png''" 1 "''a.png''" gray_float]
    by simp
qed

section \<open>Image: the cache\<close>

lemma Image_read_image_cached:
  "image l = Some b \<Longrightarrow> Image_read_image fs l = (Inr b, l, [])"
  by (simp add: Image_read_image_def)

lemma Image_step_cached: "image l = Some b \<Longrightarrow> Image_step fs l c = (l, [])"
  by (cases c)
    (simp_all add: Image_step_def Image_get_key_def Image_call_def Image_size_def
      Image_read_image_cached)

lemma Image_run_cached: "image l = Some b \<Longrightarrow> Image_run l cs = (l, [])"
proof (induction cs)
  case Nil
  then show ?case by simp
next
  case (Cons c cs)
  then show ?case by (cases c) (simp add: Image_step_cached)
qed

lemma Image_read_image_result:
  "Image_read_image fs l = (Inr b, l', opened) \<Longrightarrow> image l' = Some b"
  by (auto simp: Image_read_image_def Let_def split: option.splits sum.splits)

text \<open>
  C7. The result of \<open>evaluate\<close> on a still image layer does not depend on the time.
  When \<open>evaluate\<close> at \<open>t1\<close> returns a buffer, the cache holds that buffer, and
  \<open>evaluate\<close> at any \<open>t2\<close> afterwards, whatever has become of the file system,
  returns the same buffer, decodes nothing and leaves the layer as it is; so does every
  later sequence of calls. The same holds after a \<open>size\<close> access that succeeded, and
  from the start for a layer constructed with its buffer: the cache is filled at most
  once.
\<close>

theorem Image_call_time_invariant:
  "Image_call fs l t1 = Image_call fs l t2
   \<and> (Image_call fs l t1 = (Inr b, l', opened) \<longrightarrow>
        image l' = Some b
        \<and> Image_call fs' l' t2 = (Inr b, l', [])
        \<and> Image_run l' cs = (l', []))
   \<and> (Image_size fs l = (Inr wh, l', opened) \<longrightarrow>
        image l' \<noteq> None \<and> Image_run l' cs = (l', []))
   \<and> (image l = Some b \<longrightarrow> Image_call fs l t1 = (Inr b, l, []) \<and> Image_run l cs = (l, []))"
proof (intro conjI impI)
  show "Image_call fs l t1 = Image_call fs l t2"
    by (simp add: Image_call_def)
next
  assume a: "Image_call fs l t1 = (Inr b, l', opened)"
  then show c: "image l' = Some b"
    by (simp add: Image_call_def Image_read_image_result)
  show "Image_call fs' l' t2 = (Inr b, l', [])"
    using c by (simp add: Image_call_def Image_read_image_cached)
  show "Image_run l' cs = (l', [])"
    using c by (rule Image_run_cached)
next
  assume a: "Image_size fs l = (Inr wh, l', opened)"
  then obtain b where "Image_read_image fs l = (Inr b, l', opened)"
    by (auto simp: Image_size_def split: prod.splits sum.splits if_splits)
  then have c: "image l' = Some b" by (rule Image_read_image_result)
  then show "image l' \<noteq> None" by simp
  show "Image_run l' cs = (l', [])" using c by (rule Image_run_cached)
next
  assume c: "image l = Some b"
  then show "Image_call fs l t1 = (Inr b, l, [])"
    by (simp add: Image_call_def Image_read_image_cached)
  show "Image_run l cs = (l, [])" using c by (rule Image_run_cached)
qed

theorem Image_call_time_invariant_witness:
  "Image_call disk still 0 = (Inr red_rgba, still\<lparr>image := Some red_rgba\<rparr>, [''a.png''])
   \<and> Image_call no_files (still\<lparr>image := Some red_rgba\<rparr>) 5 =
        (Inr red_rgba, still\<lparr>image := Some red_rgba\<rparr>, [])
   \<and> Image_run (still\<lparr>image := Some red_rgba\<rparr>) [(no_files, ImEvaluate 7), (disk, ImSize)] =
        (still\<lparr>image := Some red_rgba\<rparr>, [])"
proof -
  have h: "Image_call disk still 0 = (Inr red_rgba, still\<lparr>image := Some red_rgba\<rparr>, [''a.png''])"
    by (simp add: Image_call_def Image_read_image_def still_def PIL_open_disk decode_red_pixel)
  show ?thesis
    using h Image_call_time_invariant [where fs = disk and l = still and ?t1.0 = 0 and ?t2.0 = 5
        and b = red_rgba and l' = "still\<lparr>image := Some red_rgba\<rparr>" and opened = "[''a.png'']"
        and fs' = no_files and cs = "[(no_files, ImEvaluate 7), (disk, ImSize)]"]
    by simp
qed

section \<open>A decode that fails\<close>

lemma ImageSequence_call_error_state:
  "fst (ImageSequence_call fs s t) = Inl e \<Longrightarrow> fst (snd (ImageSequence_call fs s t)) = s"
  by (auto simp: ImageSequence_call_def Let_def split: option.splits img_input.splits sum.splits if_splits)

lemma Image_call_error_state:
  "fst (Image_call fs l t) = Inl e \<Longrightarrow> fst (snd (Image_call fs l t)) = l"
  by (auto simp: Image_call_def Image_read_image_def Let_def split: option.splits sum.splits)

text \<open>
  C10. When \<open>evaluate\<close> fails, the layer is as it was before the call. When the lazy
  decode of an absent slot of a sequence (of the empty cache of a still image) fails,
  the decoder's error is the result, the slot (the cache) stays absent, and a later
  \<open>evaluate\<close> that resolves to it hands the file to the decoder again; if the decode
  succeeds then, its buffer is returned and stored.
\<close>

theorem failed_decode_keeps_state:
  "(fst (ImageSequence_call fs s t) = Inl e \<longrightarrow> fst (snd (ImageSequence_call fs s t)) = s)
   \<and> (fst (Image_call fs l t) = Inl e \<longrightarrow> fst (snd (Image_call fs l t)) = l)
   \<and> (get_state s t = int i \<and> i < length (images s) \<and> images s ! i = None
        \<and> i < length (img_files s) \<and> img_files s ! i = PathInput p \<and> PIL_open fs p = Inl e \<longrightarrow>
        ImageSequence_call fs s t = (Inl e, s, [i])
        \<and> snd (snd (ImageSequence_call fs' s t)) = [i]
        \<and> (PIL_open fs' p = Inr im \<longrightarrow>
             ImageSequence_call fs' s t =
               (Inr (Some (asarray (convert_RGBA im))),
                s\<lparr>images := (images s)[i := Some (asarray (convert_RGBA im))]\<rparr>, [i])))
   \<and> (image l = None \<and> img_file l = Some q \<and> PIL_open fs q = Inl e \<longrightarrow>
        Image_call fs l t = (Inl e, l, [q])
        \<and> snd (snd (Image_call fs' l t')) = [q]
        \<and> (PIL_open fs' q = Inr im \<longrightarrow>
             Image_call fs' l t' =
               (Inr (asarray (convert_RGBA im)), l\<lparr>image := Some (asarray (convert_RGBA im))\<rparr>, [q])))"
proof (intro conjI impI)
  show "fst (ImageSequence_call fs s t) = Inl e \<Longrightarrow> fst (snd (ImageSequence_call fs s t)) = s"
    by (rule ImageSequence_call_error_state)
  show "fst (Image_call fs l t) = Inl e \<Longrightarrow> fst (snd (Image_call fs l t)) = l"
    by (rule Image_call_error_state)
next
  assume a: "get_state s t = int i \<and> i < length (images s) \<and> images s ! i = None
        \<and> i < length (img_files s) \<and> img_files s ! i = PathInput p \<and> PIL_open fs p = Inl e"
  then show "ImageSequence_call fs s t = (Inl e, s, [i])"
    by (simp add: ImageSequence_call_def Let_def)
  show "snd (snd (ImageSequence_call fs' s t)) = [i]"
    using a by (simp add: ImageSequence_call_def Let_def split: sum.splits)
  assume "PIL_open fs' p = Inr im"
  then show "ImageSequence_call fs' s t =
               (Inr (Some (asarray (convert_RGBA im))),
                s\<lparr>images := (images s)[i := Some (asarray (convert_RGBA im))]\<rparr>, [i])"
    using a by (simp add: ImageSequence_call_def Let_def)
next
  assume a: "image l = None \<and> img_file l = Some q \<and> PIL_open fs q = Inl e"
  then show "Image_call fs l t = (Inl e, l, [q])"
    by (simp add: Image_call_def Image_read_image_def)
  show "snd (snd (Image_call fs' l t')) = [q]"
    using a by (simp add: Image_call_def Image_read_image_def Let_def split: sum.splits)
  assume "PIL_open fs' q = Inr im"
  then show "Image_call fs' l t' =
               (Inr (asarray (convert_RGBA im)), l\<lparr>image := Some (asarray (convert_RGBA im))\<rparr>, [q])"
    using a by (simp add: Image_call_def Image_read_image_def Let_def)
qed

theorem failed_decode_keeps_state_witness:
  "ImageSequence_call no_files slides (1 / 2) = (Inl FileNotFoundError, slides, [0])
   \<and> ImageSequence_call disk slides (1 / 2) =
        (Inr (Some red_rgba), slides\<lparr>images := [Some red_rgba, Some gray22]\<rparr>, [0])
   \<and> Image_call no_files still (1 / 2) = (Inl FileNotFoundError, still, [''a.png''])
   \<and> Image_call disk still 1 = (Inr red_rgba, still\<lparr>image := Some red_rgba\<rparr>, [''a.png''])"
proof -
  have h: "get_state slides (1 / 2) = int 0 \<and> 0 < length (images slides) \<and> images slides ! 0 = None
        \<and> 0 < length (img_files slides) \<and> img_files slides ! 0 = PathInput ''a.png''
        \<and> PIL_open no_files ''a.png'' = Inl FileNotFoundError"
    by (simp add: get_state_slides PIL_open_no_files) (simp add: slides_def)
  have k: "image still = None \<and> img_file still = Some ''a.png''
        \<and> PIL_open no_files ''a.png'' = Inl FileNotFoundError"
    by (simp add: PIL_open_no_files still_def)
  have m: "images slides = [None, Some gray22]" by (simp add: slides_def)
  show ?thesis
    using h k failed_decode_keeps_state [where fs = no_files and s = slides and t = "1 / 2"
        and e = FileNotFoundError and l = still and i = 0 and p = "''a.png''" and fs' = disk
        and im = red_pixel and q = "''a.png''" and t' = 1]
    by (simp add: PIL_open_disk decode_red_pixel m)
qed

section \<open>Image: a grayscale array\<close>

lemma chunks_Nil: "chunks n [] = []"
  by (simp add: chunks.simps)

lemma chunks_append:
  "0 < n \<Longrightarrow> length xs = n \<Longrightarrow> chunks n (xs @ ys) = xs # chunks n ys"
  by (subst chunks.simps) auto

lemma chunks_repeat:
  "0 < n \<Longrightarrow> chunks n (concat (map (replicate n) xs)) = map (replicate n) xs"
  by (induction xs) (simp_all add: chunks_Nil chunks_append)

lemma chunks_1_replicate: "chunks (Suc 0) (replicate m v) = replicate m [v]"
proof (induction m)
  case 0
  then show ?case by (simp add: chunks_Nil)
next
  case (Suc m)
  have "chunks (Suc 0) ([v] @ replicate m v) = [v] # chunks (Suc 0) (replicate m v)"
    by (rule chunks_append) simp_all
  then show ?case using Suc by simp
qed

lemma interleave_alpha:
  "concat (map2 (@) (map (replicate 3) xs) (replicate (length xs) [v])) =
   concat (map (\<lambda>x. [x, x, x, v]) xs)"
  by (induction xs) (simp_all add: numeral_3_eq_3)

lemma nth_pixels:
  "i < length xs \<Longrightarrow> c < 4 \<Longrightarrow>
   concat (map (\<lambda>x. [x, x, x, v]) xs) ! (i * 4 + c) = [xs ! i, xs ! i, xs ! i, v] ! c"
proof (induction xs arbitrary: i)
  case Nil
  then show ?case by simp
next
  case (Cons a xs)
  show ?case
  proof (cases i)
    case 0
    have "c = 0 \<or> c = 1 \<or> c = 2 \<or> c = 3" using Cons.prems by arith
    then show ?thesis using 0 by auto
  next
    case (Suc j)
    have "(a # a # a # v # concat (map (\<lambda>x. [x, x, x, v]) xs)) ! (4 + (j * 4 + c)) =
          concat (map (\<lambda>x. [x, x, x, v]) xs) ! (j * 4 + c)"
      by (simp add: numeral_Bit0 nth_Cons')
    then show ?thesis using Cons Suc by (simp add: add.commute add.left_commute)
  qed
qed

lemma row_major_bound: "y < H \<Longrightarrow> x < W \<Longrightarrow> y * W + x < H * (W::nat)"
proof -
  assume a: "y < H" "x < W"
  then have "y * W + x < y * W + W" by simp
  also have "\<dots> = Suc y * W" by simp
  also have "\<dots> \<le> H * W" using a by (intro mult_le_mono1) simp
  finally show ?thesis .
qed

lemma gray_rgba_eq:
  assumes "shape g = [H, W]" "dtype g = UInt8" "length (flat g) = H * W"
  shows "concatenate_last (repeat_last (expand_dims_last g) 3)
                    (full_like (expand_dims_last g) 255 UInt8)
       = \<lparr>shape = [H, W, 4], dtype = UInt8, flat = concat (map (\<lambda>x. [x, x, x, 255]) (flat g))\<rparr>"
proof -
  have rgb: "repeat_last (expand_dims_last g) 3 =
      \<lparr>shape = [H, W, 3], dtype = UInt8, flat = concat (map (replicate 3) (flat g))\<rparr>"
    using assms by (simp add: repeat_last_def expand_dims_last_def)
  have alpha: "full_like (expand_dims_last g) 255 UInt8 =
      \<lparr>shape = [H, W, 1], dtype = UInt8, flat = replicate (length (flat g)) 255\<rparr>"
    using assms by (simp add: full_like_def expand_dims_last_def)
  show ?thesis
    unfolding rgb alpha
    by (simp add: concatenate_last_def chunks_repeat chunks_1_replicate interleave_alpha)
qed

text \<open>
  C5. A still image layer constructed from a rank-2 \<^verbatim>\<open>uint8\<close> array \<open>g\<close> of shape
  \<open>(H, W)\<close> holds a buffer of shape \<open>(H, W, 4)\<close> and dtype \<^verbatim>\<open>uint8\<close> whose channels 0, 1
  and 2 equal \<open>g\<close> element by element and whose channel 3 is 255 everywhere;
  \<open>evaluate\<close> returns that buffer and \<open>size\<close> is \<open>(W, H)\<close>, neither decoding anything.
\<close>

theorem Image_init_grayscale:
  assumes "shape g = [H, W]" "dtype g = UInt8" "length (flat g) = H * W"
  shows "\<exists>buf.
           Image_init fs (ArrayInput g) d =
             Inr \<lparr>image = Some buf, img_file = None, image_duration = d\<rparr>
           \<and> shape buf = [H, W, 4] \<and> dtype buf = UInt8 \<and> length (flat buf) = H * W * 4
           \<and> (\<forall>y x. y < H \<and> x < W \<longrightarrow>
                 item3 buf y x 0 = item2 g y x \<and> item3 buf y x 1 = item2 g y x
                 \<and> item3 buf y x 2 = item2 g y x \<and> item3 buf y x 3 = 255)
           \<and> Image_call fs' \<lparr>image = Some buf, img_file = None, image_duration = d\<rparr> t =
                (Inr buf, \<lparr>image = Some buf, img_file = None, image_duration = d\<rparr>, [])
           \<and> Image_size fs' \<lparr>image = Some buf, img_file = None, image_duration = d\<rparr> =
                (Inr (W, H), \<lparr>image = Some buf, img_file = None, image_duration = d\<rparr>, [])"
proof -
  define buf where
    "buf = \<lparr>shape = [H, W, 4], dtype = UInt8, flat = concat (map (\<lambda>x. [x, x, x, 255]) (flat g))\<rparr>"
  have init: "Image_init fs (ArrayInput g) d =
      Inr \<lparr>image = Some buf, img_file = None, image_duration = d\<rparr>"
    using assms gray_rgba_eq [OF assms]
    by (simp add: Image_init_def ndim_def Let_def buf_def)
  have len: "length (flat buf) = H * W * 4"
    using assms by (simp add: buf_def length_concat comp_def sum_list_triv)
  have px: "item3 buf y x 0 = item2 g y x \<and> item3 buf y x 1 = item2 g y x
          \<and> item3 buf y x 2 = item2 g y x \<and> item3 buf y x 3 = 255"
    if "y < H \<and> x < W" for y x
  proof -
    have i: "y * W + x < length (flat g)"
      using that assms row_major_bound by simp
    show ?thesis
      using nth_pixels [OF i, of 0 255] nth_pixels [OF i, of 1 255]
        nth_pixels [OF i, of 2 255] nth_pixels [OF i, of 3 255] assms
      by (simp add: item3_def item2_def buf_def)
  qed
  have call: "Image_call fs' \<lparr>image = Some buf, img_file = None, image_duration = d\<rparr> t =
                (Inr buf, \<lparr>image = Some buf, img_file = None, image_duration = d\<rparr>, [])"
    by (simp add: Image_call_def Image_read_image_def)
  have size: "Image_size fs' \<lparr>image = Some buf, img_file = None, image_duration = d\<rparr> =
                (Inr (W, H), \<lparr>image = Some buf, img_file = None, image_duration = d\<rparr>, [])"
    by (simp add: Image_size_def Image_read_image_def buf_def)
  show ?thesis
    using init len px call size by (intro exI [of _ buf]) (simp add: buf_def)
qed

theorem Image_init_grayscale_witness:
  "shape gray22 = [2, 2] \<and> dtype gray22 = UInt8 \<and> length (flat gray22) = 2 * 2
   \<and> Image_init disk (ArrayInput gray22) 1 =
        Inr \<lparr>image = Some gray22_rgba, img_file = None, image_duration = 1\<rparr>
   \<and> item2 gray22 1 0 = 30
   \<and> item3 gray22_rgba 1 0 0 = 30 \<and> item3 gray22_rgba 1 0 1 = 30
   \<and> item3 gray22_rgba 1 0 2 = 30 \<and> item3 gray22_rgba 1 0 3 = 255
   \<and> Image_size no_files \<lparr>image = Some gray22_rgba, img_file = None, image_duration = 1\<rparr> =
        (Inr (2, 2), \<lparr>image = Some gray22_rgba, img_file = None, image_duration = 1\<rparr>, [])"
proof -
  have h: "shape gray22 = [2, 2]" "dtype gray22 = UInt8" "length (flat gray22) = 2 * 2"
    by (simp_all add: gray22_def)
  have e: "Image_init disk (ArrayInput gray22) 1 =
        Inr \<lparr>image = Some gray22_rgba, img_file = None, image_duration = 1\<rparr>"
    by (simp add: Image_init_def ndim_def gray22_def gray22_rgba_def Let_def
        concatenate_last_def repeat_last_def expand_dims_last_def full_like_def
        chunks.simps numeral_3_eq_3 numeral_2_eq_2)
  from Image_init_grayscale [OF h, of disk 1 no_files 0]
  obtain buf where b:
    "Image_init disk (ArrayInput gray22) 1 =
       Inr \<lparr>image = Some buf, img_file = None, image_duration = 1\<rparr>"
    "\<forall>y x. y < 2 \<and> x < 2 \<longrightarrow>
       item3 buf y x 0 = item2 gray22 y x \<and> item3 buf y x 1 = item2 gray22 y x
       \<and> item3 buf y x 2 = item2 gray22 y x \<and> item3 buf y x 3 = 255"
    "Image_size no_files \<lparr>image = Some buf, img_file = None, image_duration = 1\<rparr> =
       (Inr (2, 2), \<lparr>image = Some buf, img_file = None, image_duration = 1\<rparr>, [])"
    by blast
  have eq: "buf = gray22_rgba" using b(1) e by simp
  have g: "item2 gray22 1 0 = 30" by (simp add: item2_def gray22_def)
  have "(1::nat) < 2 \<and> (0::nat) < 2" by simp
  with b(2) have "item3 buf 1 0 0 = item2 gray22 1 0 \<and> item3 buf 1 0 1 = item2 gray22 1 0
       \<and> item3 buf 1 0 2 = item2 gray22 1 0 \<and> item3 buf 1 0 3 = 255"
    by blast
  then show ?thesis using h e g b(3) unfolding eq by simp
qed

section \<open>ImageSequence: each slot is decoded once\<close>























lemma ImageSequence_call_slides:
  "ImageSequence_call disk slides (1 / 2) = (Inr (Some red_rgba), slides_played, [0])"
  "ImageSequence_call disk slides (3 / 2) = (Inr (Some gray22), slides, [])"
  using get_state_slides PIL_open_disk decode_red_pixel
  by (simp_all add: ImageSequence_call_def slides_played_def) (simp_all add: slides_def)








section \<open>ImageSequence: an array asset\<close>

text \<open>
  C1. The sequence layer hands back an array asset as it was given: the grayscale
  array of shape \<open>(2, 2)\<close> comes back from \<open>evaluate\<close> with two dimensions, where the
  still image layer turns the same array into an RGBA buffer of shape \<open>(2, 2, 4)\<close>.
\<close>

theorem ImageSequence_returns_raw_array:
  "ImageSequence_init disk [0, 1] [1, 2] [PathInput ''a.png'', ArrayInput gray22] = Inr slides
   \<and> ImageSequence_call disk slides (3 / 2) = (Inr (Some gray22), slides, [])
   \<and> shape gray22 = [2, 2] \<and> ndim gray22 = 2
   \<and> (\<exists>l. Image_init disk (ArrayInput gray22) 1 = Inr l \<and> image l = Some gray22_rgba
          \<and> shape gray22_rgba = [2, 2, 4] \<and> dtype gray22_rgba = UInt8)"
proof -
  have "Image_init disk (ArrayInput gray22) 1 =
      Inr \<lparr>image = Some gray22_rgba, img_file = None, image_duration = 1\<rparr>"
    using gray_rgba_eq [of gray22 2 2]
    by (simp add: Image_init_def ndim_def gray22_def gray22_rgba_def)
  then show ?thesis
    using slides_init ImageSequence_call_slides(2)
    by (simp add: gray22_def ndim_def gray22_rgba_def)
qed

end
